theory Spec2Isabelle
  imports Complex_Main "HOL-Library.AList" "HOL-Library.Multiset" "HOL-Library.Log_Nat"
begin

section \<open>Values shared by the book builders\<close>

text \<open>
  Prices and quantities are the numbers the feeds carry as decimal strings; the builders
  turn them into Python floats with \<open>float(...)\<close>. They are modelled after that
  conversion: a finite double is the rational number it stands for. The L2 builder only
  compares them and uses them as dictionary keys; the L3 builder also adds and subtracts
  sizes, which rounds to the nearest double (\<open>fadd\<close> and \<open>fsub\<close> below).

  A Python \<open>dict\<close> is an association list with distinct keys in insertion order:
  \<open>d[k] = v\<close> is \<open>AList.update k v d\<close> (in place for a key that is there, appended
  otherwise), \<open>d.pop(k, None)\<close> is \<open>AList.delete k d\<close>, \<open>d.get(k)\<close> is
  \<open>map_of d k\<close> and \<open>d.items()\<close> is the list itself.
\<close>

type_synonym price = rat
type_synonym qty = rat
type_synonym levels = "(price \<times> qty) list"

datatype error =
  RuntimeError string
  | KeyError string
  | ZeroDivisionError
  | AttributeError
  | Not_finite

text \<open>The first four are Python exceptions. \<open>Not_finite\<close> is none: it marks the
  place where a float operation of the source overflows to \<open>inf\<close>, a value the
  numbers of the model do not have. The source goes on with \<open>inf\<close>; the model stops
  there and says so.\<close>

text \<open>How one run of a builder's \<open>_run_once\<close> ends on a finite input: it
  raised, it returned, or it used up the input and is suspended on its next \<open>await\<close>
  (the stop event is taken as not set while input remains).\<close>

datatype ending = Raised error | Returned | Awaiting

text \<open>\<open>models.py\<close>: the \<open>BookState\<close> dataclass.\<close>

record BookState =
  venue :: string
  symbol :: string
  ts_exchange_ms :: "int option"
  ts_local_ms :: int
  kind :: string
  best_bid :: price
  best_ask :: price
  bids :: levels
  asks :: levels
  l3_order_count :: "nat option"

text \<open>\<open>sorted(d.items(), key=lambda x: x[0])\<close> and the same with
  \<open>reverse=True\<close>: Python's sort is stable, and the reversed sort keeps the original
  order of equal keys.\<close>

definition sorted_asc :: "levels \<Rightarrow> levels" where
  "sorted_asc xs = sort_key fst xs"

definition sorted_desc :: "levels \<Rightarrow> levels" where
  "sorted_desc xs = rev (sort_key fst (rev xs))"

text \<open>Float arithmetic: Python's \<open>float\<close> is the IEEE 754 binary64 format, and
  \<open>+\<close> and \<open>-\<close> give the exact result rounded to the nearest double, ties to the
  even significand. \<open>pow2 e\<close> is \<open>2\<close> to the power \<open>e\<close>; \<open>floor_log2 a\<close>, for
  a positive \<open>a\<close>, is the \<open>k\<close> with \<open>2^k \<le> a < 2^(k+1)\<close>
  (\<open>bitlen n\<close> is the number of binary digits of \<open>n\<close>). \<open>round_double\<close> rounds to
  53 significant bits, on the grid of \<open>2^(-1074)\<close> for the subnormal range, and is
  \<open>None\<close> when the rounded magnitude reaches \<open>2^1024\<close> (the source's \<open>inf\<close>).\<close>

definition pow2 :: "int \<Rightarrow> rat" where
  "pow2 e = (if 0 \<le> e then 2 ^ nat e else 1 / 2 ^ nat (- e))"

definition floor_log2 :: "rat \<Rightarrow> int" where
  "floor_log2 a =
     (if 1 \<le> a then bitlen \<lfloor>a\<rfloor> - 1 else - bitlen (\<lceil>1 / a\<rceil> - 1))"

definition round_half_even :: "rat \<Rightarrow> int" where
  "round_half_even z =
     (let f = \<lfloor>z\<rfloor>; d = z - of_int f
      in if d < 1 / 2 then f else if 1 / 2 < d then f + 1 else if even f then f else f + 1)"

definition round_double :: "rat \<Rightarrow> rat option" where
  "round_double x =
     (if x = 0 then Some 0
      else
        (let a = \<bar>x\<bar>;
             e = max (- 1074) (floor_log2 a - 52);
             r = of_int (round_half_even (a / pow2 e)) * pow2 e
         in if 1024 \<le> floor_log2 r then None else Some (if x < 0 then - r else r)))"

definition fadd :: "qty \<Rightarrow> qty \<Rightarrow> qty option" where
  "fadd x y = round_double (x + y)"

definition fsub :: "qty \<Rightarrow> qty \<Rightarrow> qty option" where
  "fsub x y = round_double (x - y)"

text \<open>The slice \<open>xs[:n]\<close>: a negative \<open>n\<close> counts from the end.\<close>

definition slice_to :: "int \<Rightarrow> 'a list \<Rightarrow> 'a list" where
  "slice_to n xs = (if 0 \<le> n then take (nat n) xs else take (length xs - nat (- n)) xs)"

section \<open>The diff-stream builder (\<open>exchanges/binance_l2.py\<close>)\<close>

text \<open>A \<open>depthUpdate\<close> event after JSON decoding: \<open>E\<close> (event time, may be
  missing), \<open>U\<close> and \<open>u\<close> read as \<open>int(event.get(...) or 0)\<close>, and the
  \<open>b\<close> and \<open>a\<close> entry lists (missing is the empty list).\<close>

record depth_event =
  ev_E :: "int option"
  ev_U :: int
  ev_u :: int
  ev_b :: levels
  ev_a :: levels

text \<open>An event together with the wall clock (in ms) read while it is processed.\<close>

type_synonym timed_event = "int \<times> depth_event"

record snapshot =
  lastUpdateId :: int
  snap_bids :: levels
  snap_asks :: levels

record binance_l2 =
  l2_symbol :: string
  l2_top_n :: int
  l2_emit_full :: bool
  l2_bids :: levels
  l2_asks :: levels
  book_update_id :: int
  l2_resync_count :: nat
  l2_last_event_ts :: int

definition gap_error :: error where
  "gap_error = RuntimeError ''binance_l2_gap''"

text \<open>\<open>_load_snapshot\<close>: the dictionary comprehension keeps the rows with a
  positive quantity; a repeated price keeps its first position and its last quantity.\<close>

definition dict_of_positive :: "levels \<Rightarrow> levels" where
  "dict_of_positive rows =
     fold (\<lambda>(p, q) d. AList.update p q d) (filter (\<lambda>(p, q). 0 < q) rows) []"

definition load_snapshot :: "snapshot \<Rightarrow> binance_l2 \<Rightarrow> binance_l2" where
  "load_snapshot snap st =
     st\<lparr>l2_bids := dict_of_positive (snap_bids snap),
        l2_asks := dict_of_positive (snap_asks snap)\<rparr>"

text \<open>\<open>_apply_event\<close>: one \<open>for\<close> loop per side; quantity 0 pops the price,
  any other quantity replaces it.\<close>

definition apply_entry :: "price \<times> qty \<Rightarrow> levels \<Rightarrow> levels" where
  "apply_entry e d = (if snd e = 0 then AList.delete (fst e) d else AList.update (fst e) (snd e) d)"

definition apply_side :: "levels \<Rightarrow> levels \<Rightarrow> levels" where
  "apply_side entries d = fold apply_entry entries d"

definition apply_event :: "int \<Rightarrow> depth_event \<Rightarrow> binance_l2 \<Rightarrow> binance_l2" where
  "apply_event now ev st =
     st\<lparr>l2_last_event_ts :=
          (case ev_E ev of None \<Rightarrow> now | Some e \<Rightarrow> if e = 0 then now else e),
        l2_bids := apply_side (ev_b ev) (l2_bids st),
        l2_asks := apply_side (ev_a ev) (l2_asks st)\<rparr>"

text \<open>\<open>_top_levels\<close> and \<open>_emit_state\<close>. The result is the \<open>BookState\<close>
  handed to \<open>bus.publish\<close>, or \<open>None\<close> when a side is empty and nothing is
  published.\<close>

definition top_levels :: "binance_l2 \<Rightarrow> levels \<times> levels" where
  "top_levels st =
     (slice_to (l2_top_n st) (sorted_desc (l2_bids st)),
      slice_to (l2_top_n st) (sorted_asc (l2_asks st)))"

definition emit_state :: "int \<Rightarrow> int option \<Rightarrow> binance_l2 \<Rightarrow> BookState option" where
  "emit_state now ts st =
     (case (if l2_emit_full st then (sorted_desc (l2_bids st), sorted_asc (l2_asks st))
            else top_levels st) of
        ((bp, bq) # bs, (ap, aq) # as) \<Rightarrow>
          Some \<lparr>venue = ''binance'', symbol = l2_symbol st,
                ts_exchange_ms = Some (case ts of None \<Rightarrow> now | Some t \<Rightarrow> t),
                ts_local_ms = now, kind = ''L2'',
                best_bid = bp, best_ask = ap,
                bids = (bp, bq) # bs, asks = (ap, aq) # as,
                l3_order_count = None\<rparr>
      | _ \<Rightarrow> None)"

text \<open>The replay of the buffered events (the \<open>for event in buffered\<close> loop of
  \<open>_run_once\<close>). The result is the error raised, if any, the builder as the loop
  leaves it, and the \<open>applied\<close> flag.\<close>

fun replay_buffered ::
  "timed_event list \<Rightarrow> binance_l2 \<Rightarrow> bool \<Rightarrow> error option \<times> binance_l2 \<times> bool" where
  "replay_buffered [] st applied = (None, st, applied)"
| "replay_buffered ((now, ev) # evs) st applied =
     (if ev_u ev \<le> book_update_id st then replay_buffered evs st applied
      else if ev_U ev \<le> book_update_id st + 1 \<and> book_update_id st + 1 \<le> ev_u ev
        then replay_buffered evs ((apply_event now ev st)\<lparr>book_update_id := ev_u ev\<rparr>) True
      else if ev_U ev > book_update_id st + 1 then (Some gap_error, st, applied)
      else replay_buffered evs st applied)"

text \<open>The \<open>if not applied: while True: ...\<close> loop: it consumes live events until
  one bridges the snapshot, applies it without publishing, and breaks. The result is how
  the loop ended (\<open>None\<close>: by \<open>break\<close>), the builder, and the events left.\<close>

fun await_first ::
  "timed_event list \<Rightarrow> binance_l2 \<Rightarrow> ending option \<times> binance_l2 \<times> timed_event list" where
  "await_first [] st = (Some Awaiting, st, [])"
| "await_first ((now, ev) # evs) st =
     (if ev_u ev \<le> book_update_id st then await_first evs st
      else if ev_U ev \<le> book_update_id st + 1 \<and> book_update_id st + 1 \<le> ev_u ev
        then (None, (apply_event now ev st)\<lparr>book_update_id := ev_u ev\<rparr>, evs)
      else if ev_U ev > book_update_id st + 1 then (Some (Raised gap_error), st, evs)
      else await_first evs st)"

text \<open>The live loop \<open>while not stop_evt.is_set(): ...\<close>. \<open>out\<close> collects the
  \<open>BookState\<close> values handed to the bus, oldest first.\<close>

fun live_loop ::
  "timed_event list \<Rightarrow> binance_l2 \<Rightarrow> BookState list \<Rightarrow> ending \<times> binance_l2 \<times> BookState list" where
  "live_loop [] st out = (Awaiting, st, out)"
| "live_loop ((now, ev) # evs) st out =
     (if ev_u ev \<le> book_update_id st then live_loop evs st out
      else if ev_U ev > book_update_id st + 1 then (Raised gap_error, st, out)
      else
        (let st' = (apply_event now ev st)\<lparr>book_update_id := ev_u ev\<rparr>
         in live_loop evs st'
              (case emit_state now (ev_E ev) st' of None \<Rightarrow> out | Some bs \<Rightarrow> out @ [bs])))"

text \<open>The snapshot fetches of \<open>_run_once\<close>: the first fetch and the refetches while
  the snapshot is older than the first buffered event. The list holds the results of
  the successive \<open>_fetch_snapshot\<close> calls (\<open>None\<close>: the fetch failed).\<close>

datatype fetched = Fetched snapshot | Fetch_failed | Fetch_pending

fun fetch_fresh :: "int \<Rightarrow> snapshot option list \<Rightarrow> fetched" where
  "fetch_fresh first_u [] = Fetch_pending"
| "fetch_fresh first_u (None # rest) = Fetch_failed"
| "fetch_fresh first_u (Some snap # rest) =
     (if lastUpdateId snap < first_u then fetch_fresh first_u rest else Fetched snap)"

text \<open>One connection epoch, \<open>_run_once\<close>. Its input: the results of the snapshot
  fetches, the events found in the queue when it is drained (the first of them set
  \<open>first_u\<close>), and the events received afterwards.\<close>

record epoch =
  ep_fetches :: "snapshot option list"
  ep_buffered :: "timed_event list"
  ep_live :: "timed_event list"

definition clear_book :: "binance_l2 \<Rightarrow> binance_l2" where
  "clear_book st = st\<lparr>l2_bids := [], l2_asks := [], book_update_id := 0\<rparr>"

definition sync_snapshot :: "snapshot \<Rightarrow> binance_l2 \<Rightarrow> binance_l2" where
  "sync_snapshot snap st = (load_snapshot snap st)\<lparr>book_update_id := lastUpdateId snap\<rparr>"

definition run_once :: "epoch \<Rightarrow> binance_l2 \<Rightarrow> ending \<times> binance_l2 \<times> BookState list" where
  "run_once ep st0 =
     (let st = clear_book st0 in
      case ep_buffered ep of
        [] \<Rightarrow> (Awaiting, st, [])
      | (t0, first) # _ \<Rightarrow>
          (case fetch_fresh (ev_U first) (ep_fetches ep) of
             Fetch_pending \<Rightarrow> (Awaiting, st, [])
           | Fetch_failed \<Rightarrow> (Returned, st, [])
           | Fetched snap \<Rightarrow>
               (case replay_buffered (ep_buffered ep) (sync_snapshot snap st) False of
                  (Some e, st2, applied) \<Rightarrow> (Raised e, st2, [])
                | (None, st2, True) \<Rightarrow> live_loop (ep_live ep) st2 []
                | (None, st2, False) \<Rightarrow>
                    (case await_first (ep_live ep) st2 of
                       (Some r, st3, rest) \<Rightarrow> (r, st3, [])
                     | (None, st3, rest) \<Rightarrow> live_loop rest st3 []))))"

text \<open>\<open>start\<close>: the retry loop around \<open>_run_once\<close>, over the successive epochs'
  inputs. An exception counts one resync; a plain return does not.\<close>

fun start :: "epoch list \<Rightarrow> binance_l2 \<Rightarrow> binance_l2 \<times> BookState list" where
  "start [] st = (st, [])"
| "start (ep # eps) st =
     (case run_once ep st of
        (Raised e, st', out) \<Rightarrow>
          (case start eps (st'\<lparr>l2_resync_count := l2_resync_count st' + 1\<rparr>) of
             (st'', out') \<Rightarrow> (st'', out @ out'))
      | (Returned, st', out) \<Rightarrow>
          (case start eps st' of (st'', out') \<Rightarrow> (st'', out @ out'))
      | (Awaiting, st', out) \<Rightarrow> (st', out))"

section \<open>The order-stream builder (\<open>exchanges/coinbase_l3.py\<close>)\<close>

text \<open>A live order, the value \<open>{"side": ..., "price": ..., "size": ...}\<close> stored under
  its order id.\<close>

record live_order =
  o_side :: string
  o_price :: price
  o_size :: qty

text \<open>A message of the full channel after JSON decoding. \<open>msg.get(key)\<close> is
  \<open>None\<close> for a missing key. The numeric fields are the feed's decimal strings,
  modelled after \<open>float(...)\<close>; \<open>Some\<close> stands for a non-empty string, which
  Python takes as true whatever number it spells. \<open>m_sequence\<close> is
  \<open>int(msg.get("sequence") or 0)\<close>, and \<open>m_time\<close> is the \<open>time\<close> field
  already turned into epoch milliseconds (\<open>None\<close> when it is missing or does not
  parse, as \<open>_emit_state\<close> has it).\<close>

record l3_message =
  m_type :: string
  m_sequence :: int
  m_time :: "int option"
  m_order_id :: "string option"
  m_maker_order_id :: "string option"
  m_side :: "string option"
  m_price :: "price option"
  m_size :: "qty option"
  m_remaining_size :: "qty option"
  m_new_size :: "qty option"

type_synonym timed_message = "int \<times> l3_message"

text \<open>The builder: \<open>levels_buy\<close> and \<open>levels_sell\<close> are \<open>self.levels["buy"]\<close>
  and \<open>self.levels["sell"]\<close>.\<close>

record coinbase_l3 =
  product_id :: string
  l3_top_n :: int
  allow_l2_fallback :: bool
  orders :: "(string \<times> live_order) list"
  levels_buy :: levels
  levels_sell :: levels
  last_sequence :: int
  l3_resync_count :: nat
  snapshot_failures :: nat

text \<open>\<open>self.levels[side]\<close>: any key but \<open>"buy"\<close> and \<open>"sell"\<close> raises
  \<open>KeyError\<close>.\<close>

definition get_levels :: "coinbase_l3 \<Rightarrow> string \<Rightarrow> levels option" where
  "get_levels st side =
     (if side = ''buy'' then Some (levels_buy st)
      else if side = ''sell'' then Some (levels_sell st)
      else None)"

definition set_levels :: "string \<Rightarrow> levels \<Rightarrow> coinbase_l3 \<Rightarrow> coinbase_l3" where
  "set_levels side lv st =
     (if side = ''buy'' then st\<lparr>levels_buy := lv\<rparr>
      else if side = ''sell'' then st\<lparr>levels_sell := lv\<rparr>
      else st)"

text \<open>\<open>level.get(price, 0.0)\<close>.\<close>

definition level_get :: "levels \<Rightarrow> price \<Rightarrow> qty" where
  "level_get lv p = (case map_of lv p of None \<Rightarrow> 0 | Some q \<Rightarrow> q)"

text \<open>The operations return the builder, or the error raised together with the builder
  as it is at that moment (\<open>_add_order\<close> has stored the order when
  \<open>self.levels[side]\<close> raises).\<close>

type_synonym l3_result = "(error \<times> coinbase_l3) + coinbase_l3"

definition add_order ::
  "string \<Rightarrow> string \<Rightarrow> price \<Rightarrow> qty \<Rightarrow> coinbase_l3 \<Rightarrow> l3_result" where
  "add_order order_id side p sz st =
     (let st1 = st\<lparr>orders :=
                 AList.update order_id \<lparr>o_side = side, o_price = p, o_size = sz\<rparr> (orders st)\<rparr>
      in case get_levels st1 side of
           None \<Rightarrow> Inl (KeyError side, st1)
         | Some level \<Rightarrow>
             (case fadd (level_get level p) sz of
                None \<Rightarrow> Inl (Not_finite, st1)
              | Some q \<Rightarrow> Inr (set_levels side (AList.update p q level) st1)))"

definition remove_order :: "string \<Rightarrow> coinbase_l3 \<Rightarrow> l3_result" where
  "remove_order order_id st =
     (case map_of (orders st) order_id of
        None \<Rightarrow> Inr st
      | Some order \<Rightarrow>
          (let st1 = st\<lparr>orders := AList.delete order_id (orders st)\<rparr>
           in case get_levels st1 (o_side order) of
                None \<Rightarrow> Inl (KeyError (o_side order), st1)
              | Some level \<Rightarrow>
                  (case fsub (level_get level (o_price order)) (o_size order) of
                     None \<Rightarrow> Inl (Not_finite, st1)
                   | Some new_size \<Rightarrow>
                       Inr (set_levels (o_side order)
                              (if new_size \<le> 0 then AList.delete (o_price order) level
                               else AList.update (o_price order) new_size level) st1))))"

text \<open>The branch of a match that leaves the order live: the order's size first, then
  the level, each by its own float subtraction.\<close>

definition reduce_order ::
  "string \<Rightarrow> live_order \<Rightarrow> qty \<Rightarrow> coinbase_l3 \<Rightarrow> l3_result" where
  "reduce_order order_id order trade_size st =
     (case fsub (o_size order) trade_size of
        None \<Rightarrow> Inl (Not_finite, st)
      | Some rest \<Rightarrow>
          (let st1 = st\<lparr>orders :=
                      AList.update order_id (order\<lparr>o_size := rest\<rparr>) (orders st)\<rparr>
           in case get_levels st1 (o_side order) of
                None \<Rightarrow> Inl (KeyError (o_side order), st1)
              | Some level \<Rightarrow>
                  (case fsub (level_get level (o_price order)) trade_size of
                     None \<Rightarrow> Inl (Not_finite, st1)
                   | Some q \<Rightarrow>
                       Inr (set_levels (o_side order)
                              (AList.update (o_price order) (max 0 q) level) st1))))"

text \<open>The branch of a change that keeps the order: the level moves by the float
  difference of the sizes, then the order takes the new size.\<close>

definition resize_order ::
  "string \<Rightarrow> live_order \<Rightarrow> qty \<Rightarrow> coinbase_l3 \<Rightarrow> l3_result" where
  "resize_order order_id order new_size st =
     (case get_levels st (o_side order) of
        None \<Rightarrow> Inl (KeyError (o_side order), st)
      | Some level \<Rightarrow>
          (case fsub new_size (o_size order) of
             None \<Rightarrow> Inl (Not_finite, st)
           | Some delta \<Rightarrow>
               (case fadd (level_get level (o_price order)) delta of
                  None \<Rightarrow> Inl (Not_finite, st)
                | Some q \<Rightarrow>
                    Inr ((set_levels (o_side order)
                            (AList.update (o_price order) (max 0 q) level) st)
                         \<lparr>orders := AList.update order_id
                                       (order\<lparr>o_size := new_size\<rparr>) (orders st)\<rparr>))))"

text \<open>\<open>_apply_message\<close>, branch by branch. An empty string is false in Python, so an
  empty order id or side counts as missing.\<close>

definition apply_message :: "l3_message \<Rightarrow> coinbase_l3 \<Rightarrow> l3_result" where
  "apply_message msg st =
     (if m_type msg = ''received'' then Inr st
      else if m_type msg = ''open'' then
        (case (m_order_id msg, m_side msg, m_price msg,
               (case m_remaining_size msg of Some r \<Rightarrow> Some r | None \<Rightarrow> m_size msg)) of
           (Some order_id, Some side, Some p, Some sz) \<Rightarrow>
             if order_id \<noteq> [] \<and> side \<noteq> [] then add_order order_id side p sz st else Inr st
         | _ \<Rightarrow> Inr st)
      else if m_type msg = ''match'' then
        (case (m_maker_order_id msg, m_size msg) of
           (Some order_id, Some trade_size) \<Rightarrow>
             if order_id = [] then Inr st
             else
               (case map_of (orders st) order_id of
                  None \<Rightarrow> Inr st
                | Some order \<Rightarrow>
                    if o_size order \<le> trade_size then remove_order order_id st
                    else reduce_order order_id order trade_size st)
         | _ \<Rightarrow> Inr st)
      else if m_type msg = ''done'' then
        (case m_order_id msg of
           Some order_id \<Rightarrow> if order_id \<noteq> [] then remove_order order_id st else Inr st
         | None \<Rightarrow> Inr st)
      else if m_type msg = ''change'' then
        (case (m_order_id msg, m_new_size msg) of
           (Some order_id, Some new_size) \<Rightarrow>
             if order_id = [] then Inr st
             else
               (case map_of (orders st) order_id of
                  None \<Rightarrow> Inr st
                | Some order \<Rightarrow>
                    if new_size \<le> 0 then remove_order order_id st
                    else resize_order order_id order new_size st)
         | _ \<Rightarrow> Inr st)
      else Inr st)"

text \<open>The level-3 snapshot: \<open>sequence\<close> and the \<open>[price, size, order_id]\<close> rows of
  each side. \<open>_load_snapshot\<close> adds them one by one.\<close>

record l3_snapshot =
  snap_sequence :: int
  l3_snap_bids :: "(price \<times> qty \<times> string) list"
  l3_snap_asks :: "(price \<times> qty \<times> string) list"

fun load_orders ::
  "string \<Rightarrow> (price \<times> qty \<times> string) list \<Rightarrow> coinbase_l3 \<Rightarrow> l3_result" where
  "load_orders side [] st = Inr st"
| "load_orders side ((p, sz, order_id) # rows) st =
     (case add_order order_id side p sz st of
        Inl e \<Rightarrow> Inl e
      | Inr st' \<Rightarrow> load_orders side rows st')"

definition l3_load_snapshot :: "l3_snapshot \<Rightarrow> coinbase_l3 \<Rightarrow> l3_result" where
  "l3_load_snapshot snap st =
     (case load_orders ''buy'' (l3_snap_bids snap)
             (st\<lparr>orders := [], levels_buy := [], levels_sell := []\<rparr>) of
        Inl e \<Rightarrow> Inl e
      | Inr st1 \<Rightarrow> load_orders ''sell'' (l3_snap_asks snap) st1)"

definition l3_top_levels :: "coinbase_l3 \<Rightarrow> levels \<times> levels" where
  "l3_top_levels st =
     (slice_to (l3_top_n st) (sorted_desc (levels_buy st)),
      slice_to (l3_top_n st) (sorted_asc (levels_sell st)))"

definition l3_emit_state :: "int \<Rightarrow> int option \<Rightarrow> coinbase_l3 \<Rightarrow> BookState option" where
  "l3_emit_state now ts_ms st =
     (case l3_top_levels st of
        ((bp, bq) # bs, (ap, aq) # as) \<Rightarrow>
          Some \<lparr>venue = ''coinbase'', symbol = product_id st,
                ts_exchange_ms = ts_ms, ts_local_ms = now, kind = ''L3'',
                best_bid = bp, best_ask = ap,
                bids = (bp, bq) # bs, asks = (ap, aq) # as,
                l3_order_count = Some (length (orders st))\<rparr>
      | _ \<Rightarrow> None)"

text \<open>The fallback: \<open>_emit_state_l2\<close> takes the level-2 snapshot's rows as they come
  (no sorting), and \<open>_run_rest_only\<close> polls the level-2 snapshot; a poll is the clock
  and the fetch's result.\<close>

record l2_book =
  book_bids :: levels
  book_asks :: levels

definition emit_state_l2 :: "int \<Rightarrow> levels \<Rightarrow> levels \<Rightarrow> coinbase_l3 \<Rightarrow> BookState option" where
  "emit_state_l2 now book_b book_a st =
     (case (slice_to (l3_top_n st) book_b, slice_to (l3_top_n st) book_a) of
        ((bp, bq) # bs, (ap, aq) # as) \<Rightarrow>
          Some \<lparr>venue = ''coinbase'', symbol = product_id st,
                ts_exchange_ms = Some now, ts_local_ms = now, kind = ''L2'',
                best_bid = bp, best_ask = ap,
                bids = (bp, bq) # bs, asks = (ap, aq) # as,
                l3_order_count = None\<rparr>
      | _ \<Rightarrow> None)"

fun run_rest_only :: "(int \<times> l2_book option) list \<Rightarrow> coinbase_l3 \<Rightarrow> BookState list" where
  "run_rest_only [] st = []"
| "run_rest_only ((now, None) # polls) st = run_rest_only polls st"
| "run_rest_only ((now, Some snap) # polls) st =
     (case emit_state_l2 now (book_bids snap) (book_asks snap) st of
        None \<Rightarrow> run_rest_only polls st
      | Some bs \<Rightarrow> bs # run_rest_only polls st)"

text \<open>The replay of the buffered messages and the live loop of \<open>_run_once\<close>.\<close>

fun l3_replay ::
  "timed_message list \<Rightarrow> coinbase_l3 \<Rightarrow> BookState list \<Rightarrow>
   error option \<times> coinbase_l3 \<times> BookState list" where
  "l3_replay [] st out = (None, st, out)"
| "l3_replay ((now, msg) # msgs) st out =
     (if m_sequence msg \<le> last_sequence st then l3_replay msgs st out
      else
        (case apply_message msg st of
           Inl (e, st1) \<Rightarrow> (Some e, st1, out)
         | Inr st1 \<Rightarrow>
             (let st' = st1\<lparr>last_sequence := m_sequence msg\<rparr>
              in l3_replay msgs st'
                   (case l3_emit_state now (m_time msg) st' of
                      None \<Rightarrow> out | Some bs \<Rightarrow> out @ [bs]))))"

fun l3_live_loop ::
  "timed_message list \<Rightarrow> coinbase_l3 \<Rightarrow> BookState list \<Rightarrow>
   ending \<times> coinbase_l3 \<times> BookState list" where
  "l3_live_loop [] st out = (Awaiting, st, out)"
| "l3_live_loop ((now, msg) # msgs) st out =
     (if m_sequence msg \<le> last_sequence st then l3_live_loop msgs st out
      else if m_sequence msg > last_sequence st + 1
        then (Raised (RuntimeError ''coinbase_seq_gap''), st, out)
      else
        (case apply_message msg st of
           Inl (e, st1) \<Rightarrow> (Raised e, st1, out)
         | Inr st1 \<Rightarrow>
             (let st' = st1\<lparr>last_sequence := m_sequence msg\<rparr>
              in l3_live_loop msgs st'
                   (case l3_emit_state now (m_time msg) st' of
                      None \<Rightarrow> out | Some bs \<Rightarrow> out @ [bs]))))"

text \<open>One connection epoch of the L3 builder. Its input: the result of the one
  level-3 snapshot fetch, the messages buffered by then, the live messages, and the
  polls of the fallback.\<close>

record l3_epoch =
  l3_fetch :: "l3_snapshot option"
  l3_buffered :: "timed_message list"
  l3_live :: "timed_message list"
  l3_polls :: "(int \<times> l2_book option) list"

definition l3_run_once ::
  "l3_epoch \<Rightarrow> coinbase_l3 \<Rightarrow> ending \<times> coinbase_l3 \<times> BookState list" where
  "l3_run_once ep st0 =
     (let st = st0\<lparr>orders := [], levels_buy := [], levels_sell := [], last_sequence := 0\<rparr>
      in case l3_fetch ep of
           None \<Rightarrow>
             (let st1 = st\<lparr>snapshot_failures := snapshot_failures st + 1\<rparr>
              in if allow_l2_fallback st1 \<and> 3 \<le> snapshot_failures st1
                 then (Awaiting, st1, run_rest_only (l3_polls ep) st1)
                 else (Raised (RuntimeError ''coinbase_l3_snapshot_failed''), st1, []))
         | Some snap \<Rightarrow>
             (case l3_load_snapshot snap st of
                Inl (e, st1) \<Rightarrow> (Raised e, st1, [])
              | Inr st1 \<Rightarrow>
                  (case l3_replay (l3_buffered ep)
                          (st1\<lparr>last_sequence := snap_sequence snap\<rparr>) [] of
                     (Some e, st2, out) \<Rightarrow> (Raised e, st2, out)
                   | (None, st2, out) \<Rightarrow> l3_live_loop (l3_live ep) st2 out)))"


section \<open>The storage sink (\<open>storage.py\<close>) and the bus event (\<open>bus.py\<close>)\<close>

text \<open>The flat row \<open>handle_book\<close> builds. \<open>row_bids\<close> and \<open>row_asks\<close> stand for
  the JSON text of the level lists.\<close>

record row =
  row_ts_ms :: int
  row_ts_exchange_ms :: "int option"
  row_venue :: string
  row_symbol :: string
  row_kind :: string
  row_best_bid :: price
  row_best_ask :: price
  row_bids :: levels
  row_asks :: levels
  row_l3_order_count :: "nat option"

text \<open>\<open>_bucket_start_ms\<close>: Python's \<open>//\<close> is floor division, as \<open>div\<close> on
  \<open>int\<close> is, and raises on a zero step.\<close>

definition bucket_start_ms :: "int \<Rightarrow> int \<Rightarrow> error + int" where
  "bucket_start_ms ts window =
     (let step = window * 1000
      in if step = 0 then Inl ZeroDivisionError else Inr ((ts div step) * step))"

text \<open>The writer, and the files it writes: one page per bucket. \<open>_path_for_bucket\<close>
  names the file after the bucket's start, so the files are keyed by it. A file that
  \<open>pd.read_parquet\<close> cannot read is \<open>Unreadable\<close>.\<close>

record parquet_writer =
  window_sec :: int
  bucket_ms :: "int option"
  rows :: "row list"

datatype page = Page "row list" | Unreadable

type_synonym files = "int \<Rightarrow> page option"

text \<open>\<open>df.drop_duplicates(subset=["ts_ms", "venue"])\<close> keeps the first row of each
  key; \<open>sort_values("ts_ms")\<close> orders by the timestamp (rows of one timestamp are kept
  in their order here; pandas leaves that order open).\<close>

definition row_key :: "row \<Rightarrow> int \<times> string" where
  "row_key r = (row_ts_ms r, row_venue r)"

fun drop_seen :: "(int \<times> string) list \<Rightarrow> row list \<Rightarrow> row list" where
  "drop_seen seen [] = []"
| "drop_seen seen (r # rs) =
     (if row_key r \<in> set seen then drop_seen seen rs
      else r # drop_seen (row_key r # seen) rs)"

definition drop_duplicates :: "row list \<Rightarrow> row list" where
  "drop_duplicates rs = drop_seen [] rs"

definition sort_values :: "row list \<Rightarrow> row list" where
  "sort_values rs = sort_key row_ts_ms rs"

text \<open>\<open>flush\<close>: nothing to do on an empty buffer; otherwise the buffer is merged
  into the bucket's page if there is one, and the page is rewritten. When the page
  cannot be read the \<open>except\<close> branch leaves the new rows alone.\<close>

definition flush :: "parquet_writer \<times> files \<Rightarrow> parquet_writer \<times> files" where
  "flush ws =
     (case ws of (w, fs) \<Rightarrow>
        if rows w = [] then (w, fs)
        else
          (let path = (case bucket_ms w of None \<Rightarrow> 0 | Some b \<Rightarrow> b);
               df = (case fs path of
                       None \<Rightarrow> rows w
                     | Some Unreadable \<Rightarrow> rows w
                     | Some (Page existing) \<Rightarrow>
                         sort_values (drop_duplicates (existing @ rows w)))
           in (w\<lparr>rows := []\<rparr>, fs(path := Some (Page df)))))"

text \<open>\<open>RollingParquetWriter.write\<close> (\<open>write\<close> is a keyword here).\<close>

definition write_row :: "row \<Rightarrow> parquet_writer \<times> files \<Rightarrow> error + (parquet_writer \<times> files)" where
  "write_row r ws =
     (case ws of (w, fs) \<Rightarrow>
        (case bucket_start_ms (row_ts_ms r) (window_sec w) of
           Inl e \<Rightarrow> Inl e
         | Inr b \<Rightarrow>
             (let w1 = (if bucket_ms w = None then w\<lparr>bucket_ms := Some b\<rparr> else w);
                  ws2 = (if Some b \<noteq> bucket_ms w1
                         then (case flush (w1, fs) of (w', fs') \<Rightarrow> (w'\<lparr>bucket_ms := Some b\<rparr>, fs'))
                         else (w1, fs))
              in Inr ((fst ws2)\<lparr>rows := rows (fst ws2) @ [r]\<rparr>, snd ws2))))"

text \<open>\<open>bus.py\<close>: an event is a type tag and a payload of any type; only a
  \<open>BookState\<close> has the attributes \<open>handle_book\<close> reads.\<close>

datatype payload = Book BookState | Other

record event =
  event_type :: string
  event_payload :: payload

definition book_row :: "BookState \<Rightarrow> row" where
  "book_row book =
     \<lparr>row_ts_ms = ts_local_ms book, row_ts_exchange_ms = ts_exchange_ms book,
      row_venue = venue book, row_symbol = symbol book, row_kind = kind book,
      row_best_bid = best_bid book, row_best_ask = best_ask book,
      row_bids = bids book, row_asks = asks book,
      row_l3_order_count = l3_order_count book\<rparr>"

definition handle_book ::
  "payload \<Rightarrow> parquet_writer \<times> files \<Rightarrow> error + (parquet_writer \<times> files)" where
  "handle_book p ws =
     (case p of Other \<Rightarrow> Inl AttributeError | Book book \<Rightarrow> write_row (book_row book) ws)"

text \<open>\<open>StorageSink.run\<close> over the events the bus delivers, each with the clock
  (\<open>time.time()\<close>, in seconds) read after it is handled. The state: the writer, the
  files, \<open>_last_flush\<close> and \<open>counts["book"]\<close> (the caller in \<open>run.py\<close>
  passes the dictionary). There is no \<open>try\<close> in
  \<open>run\<close> or \<open>handle_book\<close>: an error ends the loop.\<close>

record sink =
  sink_writer :: parquet_writer
  sink_files :: files
  flush_sec :: rat
  last_flush :: rat
  book_count :: nat

fun sink_run :: "(rat \<times> event) list \<Rightarrow> sink \<Rightarrow> error option \<times> sink" where
  "sink_run [] s = (None, s)"
| "sink_run ((now, ev) # evs) s =
     (if event_type ev = ''book_state'' then
        (case handle_book (event_payload ev) (sink_writer s, sink_files s) of
           Inl e \<Rightarrow> (Some e, s)
         | Inr (w, fs) \<Rightarrow>
             (let s1 = s\<lparr>sink_writer := w, sink_files := fs, book_count := book_count s + 1\<rparr>
              in if flush_sec s1 \<le> now - last_flush s1
                 then (case flush (sink_writer s1, sink_files s1) of
                         (w', fs') \<Rightarrow>
                           sink_run evs (s1\<lparr>sink_writer := w', sink_files := fs', last_flush := now\<rparr>))
                 else sink_run evs s1))
      else sink_run evs s)"

section \<open>Predicates and inputs used in the statements\<close>

text \<open>A side of the book whose prices are distinct and whose quantities all satisfy
  \<open>Q\<close>; delta entries that either delete (quantity 0) or carry a quantity satisfying
  \<open>Q\<close>.\<close>

definition book_ok :: "(qty \<Rightarrow> bool) \<Rightarrow> levels \<Rightarrow> bool" where
  "book_ok Q d \<longleftrightarrow> distinct (map fst d) \<and> (\<forall>x\<in>set d. Q (snd x))"

definition entries_ok :: "(qty \<Rightarrow> bool) \<Rightarrow> levels \<Rightarrow> bool" where
  "entries_ok Q es \<longleftrightarrow> (\<forall>e\<in>set es. snd e = 0 \<or> Q (snd e))"

definition events_ok :: "(qty \<Rightarrow> bool) \<Rightarrow> timed_event list \<Rightarrow> bool" where
  "events_ok Q tes \<longleftrightarrow>
     (\<forall>te\<in>set tes. entries_ok Q (ev_b (snd te)) \<and> entries_ok Q (ev_a (snd te)))"

definition builder_ok :: "(qty \<Rightarrow> bool) \<Rightarrow> binance_l2 \<Rightarrow> bool" where
  "builder_ok Q st \<longleftrightarrow> book_ok Q (l2_bids st) \<and> book_ok Q (l2_asks st)"

definition state_ok :: "(qty \<Rightarrow> bool) \<Rightarrow> BookState \<Rightarrow> bool" where
  "state_ok Q bs \<longleftrightarrow>
     (\<exists>q rest. bids bs = (best_bid bs, q) # rest) \<and>
     (\<exists>q rest. asks bs = (best_ask bs, q) # rest) \<and>
     sorted_wrt (>) (map fst (bids bs)) \<and>
     sorted_wrt (<) (map fst (asks bs)) \<and>
     (\<forall>x\<in>set (bids bs @ asks bs). Q (snd x))"

text \<open>No delta entry of the epochs carries a negative quantity.\<close>

definition nonneg_deltas :: "epoch list \<Rightarrow> bool" where
  "nonneg_deltas eps \<longleftrightarrow>
     (\<forall>ep\<in>set eps. \<forall>te\<in>set (ep_buffered ep @ ep_live ep).
        \<forall>e\<in>set (ev_b (snd te) @ ev_a (snd te)). 0 \<le> snd e)"

text \<open>Concrete inputs: a fresh builder, the snapshot of the spec's scenario A, a delta
  with given ids and entries, and epochs built from them.\<close>

definition builder0 :: binance_l2 where
  "builder0 =
     \<lparr>l2_symbol = ''BTCUSDT'', l2_top_n = 10, l2_emit_full = False,
      l2_bids = [], l2_asks = [], book_update_id = 0, l2_resync_count = 0,
      l2_last_event_ts = 0\<rparr>"

definition builder_101 :: binance_l2 where
  "builder_101 =
     \<lparr>l2_symbol = ''BTCUSDT'', l2_top_n = 10, l2_emit_full = False,
      l2_bids = [], l2_asks = [(21 / 2, 1)], book_update_id = 101, l2_resync_count = 0,
      l2_last_event_ts = 1700000000000\<rparr>"

definition snapshot_A :: snapshot where
  "snapshot_A = \<lparr>lastUpdateId = 100, snap_bids = [(10, 1)], snap_asks = [(21 / 2, 1)]\<rparr>"

definition delta :: "int \<Rightarrow> int \<Rightarrow> levels \<Rightarrow> levels \<Rightarrow> depth_event" where
  "delta U u b a = \<lparr>ev_E = Some 1700000000000, ev_U = U, ev_u = u, ev_b = b, ev_a = a\<rparr>"

definition epoch_ok :: epoch where
  "epoch_ok =
     \<lparr>ep_fetches = [Some snapshot_A],
      ep_buffered = [(1, delta 95 100 [] [])],
      ep_live = [(2, delta 101 101 [(9, 2)] [(11, 3)]),
                 (3, delta 102 102 [(19 / 2, 1)] [])]\<rparr>"

definition epoch_crossed :: epoch where
  "epoch_crossed =
     \<lparr>ep_fetches = [Some snapshot_A],
      ep_buffered = [(1, delta 95 100 [] [])],
      ep_live = [(2, delta 101 101 [(9, 2)] [(11, 3)]),
                 (3, delta 102 102 [(11, 1)] [(12, - 1)])]\<rparr>"

definition epoch_gap :: epoch where
  "epoch_gap =
     \<lparr>ep_fetches = [Some snapshot_A],
      ep_buffered = [(1, delta 95 100 [] []), (2, delta 101 101 [(10, 0)] [])],
      ep_live = [(3, delta 105 110 [(10, 4)] [])]\<rparr>"

definition emitted_ok :: BookState where
  "emitted_ok =
     \<lparr>venue = ''binance'', symbol = ''BTCUSDT'', ts_exchange_ms = Some 1700000000000,
      ts_local_ms = 3, kind = ''L2'', best_bid = 10, best_ask = 21 / 2,
      bids = [(10, 1), (19 / 2, 1), (9, 2)], asks = [(21 / 2, 1), (11, 3)],
      l3_order_count = None\<rparr>"





text \<open>The order id a message refers to: \<open>maker_order_id\<close> for a match,
  \<open>order_id\<close> otherwise.\<close>

definition referenced_id :: "l3_message \<Rightarrow> string option" where
  "referenced_id msg =
     (if m_type msg = ''match'' then m_maker_order_id msg else m_order_id msg)"

text \<open>Concrete L3 inputs: a book with two buy orders at price 10 and one sell order, a
  match and an open message, an empty book, the messages applied one after the other,
  and the doubles nearest to the decimals 0.8, 0.1, 0.7 and 0.3 (what \<open>float\<close> gives for
  these strings).\<close>

definition order_a :: live_order where
  "order_a = \<lparr>o_side = ''buy'', o_price = 10, o_size = 3\<rparr>"

definition book_two :: coinbase_l3 where
  "book_two =
     \<lparr>product_id = ''BTC-USD'', l3_top_n = 10, allow_l2_fallback = True,
      orders = [(''a'', order_a),
                (''b'', \<lparr>o_side = ''buy'', o_price = 10, o_size = 2\<rparr>),
                (''c'', \<lparr>o_side = ''sell'', o_price = 11, o_size = 1\<rparr>)],
      levels_buy = [(10, 5)], levels_sell = [(11, 1)],
      last_sequence = 50, l3_resync_count = 0, snapshot_failures = 0\<rparr>"

definition empty_book :: coinbase_l3 where
  "empty_book =
     \<lparr>product_id = ''BTC-USD'', l3_top_n = 10, allow_l2_fallback = True,
      orders = [], levels_buy = [], levels_sell = [],
      last_sequence = 50, l3_resync_count = 0, snapshot_failures = 0\<rparr>"

definition match_msg :: "string \<Rightarrow> qty \<Rightarrow> l3_message" where
  "match_msg maker t =
     \<lparr>m_type = ''match'', m_sequence = 51, m_time = None, m_order_id = None,
      m_maker_order_id = Some maker, m_side = Some ''buy'', m_price = Some 10,
      m_size = Some t, m_remaining_size = None, m_new_size = None\<rparr>"



definition float_0_8 :: qty where
  "float_0_8 = 3602879701896397 / 4503599627370496"




definition buy_at_10 :: "qty \<Rightarrow> live_order" where
  "buy_at_10 sz = \<lparr>o_side = ''buy'', o_price = 10, o_size = sz\<rparr>"

definition book_of :: "(string \<times> live_order) list \<Rightarrow> levels \<Rightarrow> coinbase_l3" where
  "book_of os buy = empty_book\<lparr>orders := os, levels_buy := buy\<rparr>"

definition epoch_no_snapshot :: l3_epoch where
  "epoch_no_snapshot =
     \<lparr>l3_fetch = None,
      l3_buffered = [(1, match_msg ''a'' 1)],
      l3_live = [(2, match_msg ''a'' 2)],
      l3_polls = [(1000, Some \<lparr>book_bids = [(10, 1), (9, 4)], book_asks = [(11, 2)]\<rparr>),
                  (2000, None)]\<rparr>"

text \<open>The rows a sink hands to its writer, one \<open>write\<close> call after the other.\<close>

fun write_all ::
  "row list \<Rightarrow> parquet_writer \<times> files \<Rightarrow> error + (parquet_writer \<times> files)" where
  "write_all [] ws = Inr ws"
| "write_all (r # rs) ws =
     (case write_row r ws of Inl e \<Rightarrow> Inl e | Inr ws' \<Rightarrow> write_all rs ws')"

text \<open>Concrete sink inputs: a book state of a venue at a local time, its event, an
  event whose payload is no \<open>BookState\<close>, and a sink with a given bucket width.\<close>

definition state_at :: "string \<Rightarrow> int \<Rightarrow> price \<Rightarrow> BookState" where
  "state_at v t bid =
     \<lparr>venue = v, symbol = ''BTCUSDT'', ts_exchange_ms = None, ts_local_ms = t,
      kind = ''L2'', best_bid = bid, best_ask = 11, bids = [(bid, 1)], asks = [(11, 1)],
      l3_order_count = None\<rparr>"

definition book_event :: "BookState \<Rightarrow> event" where
  "book_event b = \<lparr>event_type = ''book_state'', event_payload = Book b\<rparr>"

definition bad_event :: event where
  "bad_event = \<lparr>event_type = ''book_state'', event_payload = Other\<rparr>"

definition sink0 :: "int \<Rightarrow> sink" where
  "sink0 window =
     \<lparr>sink_writer = \<lparr>window_sec = window, bucket_ms = None, rows = []\<rparr>,
      sink_files = (\<lambda>b. None), flush_sec = 5, last_flush = 0, book_count = 0\<rparr>"


definition batch_1 :: "row list" where
  "batch_1 = [book_row (state_at ''binance'' 2000 10), book_row (state_at ''coinbase'' 1000 10)]"

definition batch_2 :: "row list" where
  "batch_2 = [book_row (state_at ''coinbase'' 1000 9), book_row (state_at ''binance'' 1500 10)]"

definition sink_after_one :: sink where
  "sink_after_one =
     \<lparr>sink_writer =
        \<lparr>window_sec = 300, bucket_ms = Some 0,
         rows = [book_row (state_at ''coinbase'' 1000 10)]\<rparr>,
      sink_files = (\<lambda>b. None), flush_sec = 5, last_flush = 0, book_count = 1\<rparr>"


definition book_a :: coinbase_l3 where
  "book_a = book_of [(''a'', buy_at_10 float_0_8)] [(10, float_0_8)]"

section \<open>The diff-stream builder: replay, gaps and stale deltas\<close>

lemmas l2_eval =
  builder0_def builder_101_def snapshot_A_def delta_def epoch_ok_def epoch_crossed_def
  epoch_gap_def emitted_ok_def run_once_def clear_book_def sync_snapshot_def
  load_snapshot_def dict_of_positive_def apply_event_def apply_side_def apply_entry_def
  emit_state_def top_levels_def sorted_desc_def sorted_asc_def slice_to_def

text \<open>
  Claim C1. Scenario A: the snapshot with \<open>lastUpdateId = 100\<close>, bids \<open>[[10.0, 1]]\<close>
  and asks \<open>[[10.5, 1]]\<close> is loaded, and the buffered deltas \<open>{U: 95, u: 100}\<close> and
  \<open>{U: 101, u: 101, b: [[10.0, 0]]}\<close> are replayed. The replay raises nothing, the bid
  map ends empty, the ask map is still \<open>{10.5: 1}\<close>, and the cursor is 101. This
  holds for any builder the snapshot is loaded into, and whatever the events' times.
\<close>

theorem scenario_A_replay:
  "(case replay_buffered
          [(t1, \<lparr>ev_E = e1, ev_U = 95, ev_u = 100, ev_b = [], ev_a = []\<rparr>),
           (t2, \<lparr>ev_E = e2, ev_U = 101, ev_u = 101, ev_b = [(10, 0)], ev_a = []\<rparr>)]
          (sync_snapshot
             \<lparr>lastUpdateId = 100, snap_bids = [(10, 1)], snap_asks = [(21 / 2, 1)]\<rparr> st)
          False of
      (err, st', applied) \<Rightarrow>
        err = None \<and> l2_bids st' = [] \<and> l2_asks st' = [(21 / 2, 1)] \<and>
        book_update_id st' = 101 \<and> applied)"
  by (simp add: sync_snapshot_def load_snapshot_def dict_of_positive_def apply_event_def
      apply_side_def apply_entry_def)

text \<open>The live loop over a split input: the second part is processed from where the
  first part left the builder, unless the first part raised.\<close>

lemma live_loop_append:
  "live_loop (pre @ post) st out =
     (case live_loop pre st out of
        (Awaiting, st', out') \<Rightarrow> live_loop post st' out'
      | r \<Rightarrow> r)"
proof (induction pre arbitrary: st out)
  case Nil
  show ?case by simp
next
  case (Cons te pre)
  obtain now ev where te: "te = (now, ev)" by (cases te)
  show ?case
    unfolding te by (simp add: Cons.IH Let_def)
qed

lemma live_loop_gap:
  "book_update_id st < ev_u ev \<Longrightarrow> book_update_id st + 1 < ev_U ev \<Longrightarrow>
   live_loop ((now, ev) # evs) st out = (Raised gap_error, st, out)"
  by simp

text \<open>
  Claim C2. A live delta whose end id is beyond the cursor and whose start id is beyond
  cursor + 1 makes the live loop raise the gap error: the builder (its bid and ask maps,
  its cursor) and the published states are as they were before the delta. When the
  delta arrives in the live loop of an epoch, \<open>_run_once\<close> raises, and \<open>start\<close>
  goes on to the next epochs with the resync counter one higher.
\<close>

theorem gap_raises_and_counts_resync:
  assumes reach: "run_once ep st0 = live_loop (pre @ (now, ev) # post) st1 []"
    and pre: "live_loop pre st1 [] = (Awaiting, st, out)"
    and u: "book_update_id st < ev_u ev"
    and U: "book_update_id st + 1 < ev_U ev"
  shows "live_loop ((now, ev) # post) st out = (Raised gap_error, st, out) \<and>
         run_once ep st0 = (Raised gap_error, st, out) \<and>
         start (ep # eps) st0 =
           (case start eps (st\<lparr>l2_resync_count := l2_resync_count st + 1\<rparr>) of
              (st', out') \<Rightarrow> (st', out @ out'))"
proof -
  have g: "live_loop ((now, ev) # post) st out = (Raised gap_error, st, out)"
    using u U by (rule live_loop_gap)
  have r: "run_once ep st0 = (Raised gap_error, st, out)"
    unfolding reach live_loop_append [of pre] pre using g by simp
  show ?thesis using g r by simp
qed

text \<open>Scenario B: after scenario A the cursor is 101, and the delta \<open>{U: 105, u: 110}\<close>
  arrives.\<close>

theorem gap_raises_and_counts_resync_witness:
  "run_once epoch_gap builder0 =
     live_loop ([] @ (3, delta 105 110 [(10, 4)] []) # []) builder_101 [] \<and>
   live_loop [] builder_101 [] = (Awaiting, builder_101, []) \<and>
   book_update_id builder_101 < ev_u (delta 105 110 [(10, 4)] []) \<and>
   book_update_id builder_101 + 1 < ev_U (delta 105 110 [(10, 4)] []) \<and>
   run_once epoch_gap builder0 = (Raised gap_error, builder_101, []) \<and>
   start [epoch_gap] builder0 = (builder_101\<lparr>l2_resync_count := 1\<rparr>, [])"
proof -
  have reach: "run_once epoch_gap builder0 =
      live_loop ([] @ (3, delta 105 110 [(10, 4)] []) # []) builder_101 []"
    by (simp add: l2_eval)
  have pre: "live_loop [] builder_101 [] = (Awaiting, builder_101, [])" by simp
  have u: "book_update_id builder_101 < ev_u (delta 105 110 [(10, 4)] [])"
    by (simp add: builder_101_def delta_def)
  have U: "book_update_id builder_101 + 1 < ev_U (delta 105 110 [(10, 4)] [])"
    by (simp add: builder_101_def delta_def)
  have "l2_resync_count builder_101 = 0" by (simp add: builder_101_def)
  then show ?thesis
    using gap_raises_and_counts_resync [OF reach pre u U, of "[]"] reach pre u U by simp
qed

text \<open>
  Claim C6. A delta whose end id is at or below the cursor is skipped: wherever it
  stands in the input of the live loop or of the buffered replay, the outcome, the
  builder (bid map, ask map, cursor) and the published states are those of the input
  without it; the loop that waits for the first bridging delta skips it as well.
\<close>

theorem stale_delta_is_skipped:
  assumes "ev_u ev \<le> book_update_id st"
  shows "live_loop (pre @ (now, ev) # post) st out = live_loop (pre @ post) st out \<and>
         replay_buffered (pre @ (now, ev) # post) st applied =
           replay_buffered (pre @ post) st applied \<and>
         await_first ((now, ev) # post) st = await_first post st"
proof -
  have live: "live_loop (pre @ (now, ev) # post) st out = live_loop (pre @ post) st out"
    using assms
  proof (induction pre arbitrary: st out)
    case Nil
    then show ?case by simp
  next
    case (Cons te pre)
    obtain n e where te: "te = (n, e)" by (cases te)
    show ?case
    proof (cases "ev_u e \<le> book_update_id st")
      case True
      then show ?thesis unfolding te using Cons.IH [OF Cons.prems] by simp
    next
      case False
      then have "ev_u ev \<le> book_update_id ((apply_event n e st)\<lparr>book_update_id := ev_u e\<rparr>)"
        using Cons.prems by simp
      from Cons.IH [OF this] show ?thesis unfolding te using False by (simp add: Let_def)
    qed
  qed
  have replay: "replay_buffered (pre @ (now, ev) # post) st applied =
      replay_buffered (pre @ post) st applied"
    using assms
  proof (induction pre arbitrary: st applied)
    case Nil
    then show ?case by simp
  next
    case (Cons te pre)
    obtain n e where te: "te = (n, e)" by (cases te)
    show ?case
    proof (cases "ev_u e \<le> book_update_id st")
      case True
      then show ?thesis unfolding te using Cons.IH [OF Cons.prems] by simp
    next
      case False
      then have "ev_u ev \<le> book_update_id ((apply_event n e st)\<lparr>book_update_id := ev_u e\<rparr>)"
        using Cons.prems by simp
      from Cons.IH [OF this] Cons.IH [OF Cons.prems] show ?thesis
        unfolding te using False by simp
    qed
  qed
  show ?thesis using live replay assms by simp
qed

text \<open>The stale delta \<open>{U: 95, u: 100, b: [[10.0, 5]]}\<close> at cursor 101, before and
  after a delta that applies.\<close>

theorem stale_delta_is_skipped_witness:
  "ev_u (delta 95 100 [(10, 5)] []) \<le> book_update_id builder_101 \<and>
   live_loop ([(4, delta 102 102 [(9, 1)] [])] @ (5, delta 95 100 [(10, 5)] []) # []) builder_101 []
     = live_loop [(4, delta 102 102 [(9, 1)] [])] builder_101 [] \<and>
   fst (snd (live_loop [(3, delta 95 100 [(10, 5)] [])] builder_101 [])) = builder_101"
proof -
  have h: "ev_u (delta 95 100 [(10, 5)] []) \<le> book_update_id builder_101"
    by (simp add: builder_101_def delta_def)
  have "live_loop ([] @ (3, delta 95 100 [(10, 5)] []) # []) builder_101 []
      = live_loop ([] @ []) builder_101 []"
    using stale_delta_is_skipped [OF h, of "[]" 3 "[]" "[]"] by blast
  then have "fst (snd (live_loop [(3, delta 95 100 [(10, 5)] [])] builder_101 [])) = builder_101"
    by simp
  then show ?thesis
    using h stale_delta_is_skipped [OF h, of "[(4, delta 102 102 [(9, 1)] [])]" 5 "[]" "[]"]
    by simp
qed

section \<open>The diff-stream builder: what every published state satisfies\<close>

text \<open>The dictionary operations keep the prices distinct and add no quantity but the
  one they store.\<close>

lemma set_update_subset: "set (AList.update k v d) \<subseteq> insert (k, v) (set d)"
  by (induction d) auto

lemma set_delete_subset: "set (AList.delete k d) \<subseteq> set d"
  by (auto simp: AList.delete_eq)

lemma book_ok_entry:
  "book_ok Q d \<Longrightarrow> snd e = 0 \<or> Q (snd e) \<Longrightarrow> book_ok Q (apply_entry e d)"
  using set_update_subset [of "fst e" "snd e" d] set_delete_subset [of "fst e" d]
  by (auto simp: book_ok_def apply_entry_def distinct_update distinct_delete)

lemma book_ok_side:
  "book_ok Q d \<Longrightarrow> entries_ok Q es \<Longrightarrow> book_ok Q (apply_side es d)"
  unfolding apply_side_def
  by (induction es arbitrary: d) (auto simp: entries_ok_def book_ok_entry)

lemma book_ok_fold_update:
  "book_ok Q d \<Longrightarrow> \<forall>x\<in>set rs. Q (snd x) \<Longrightarrow>
   book_ok Q (fold (\<lambda>(p, q) d. AList.update p q d) rs d)"
proof (induction rs arbitrary: d)
  case Nil
  then show ?case by simp
next
  case (Cons r rs)
  have "book_ok Q (AList.update (fst r) (snd r) d)"
    using Cons.prems set_update_subset [of "fst r" "snd r" d]
    by (auto simp: book_ok_def distinct_update)
  then show ?case using Cons by (simp add: case_prod_beta)
qed

lemma book_ok_dict_of_positive:
  "(\<And>q. 0 < q \<Longrightarrow> Q q) \<Longrightarrow> book_ok Q (dict_of_positive rs)"
  unfolding dict_of_positive_def
  by (rule book_ok_fold_update) (auto simp: book_ok_def)

lemma builder_ok_sync:
  "(\<And>q. 0 < q \<Longrightarrow> Q q) \<Longrightarrow> builder_ok Q (sync_snapshot snap st)"
  by (simp add: builder_ok_def sync_snapshot_def load_snapshot_def book_ok_dict_of_positive)

lemma builder_ok_apply:
  "builder_ok Q st \<Longrightarrow> entries_ok Q (ev_b ev) \<Longrightarrow> entries_ok Q (ev_a ev) \<Longrightarrow>
   builder_ok Q ((apply_event now ev st)\<lparr>book_update_id := c\<rparr>)"
  by (simp add: builder_ok_def apply_event_def book_ok_side)

lemma builder_ok_replay:
  "builder_ok Q st \<Longrightarrow> events_ok Q evs \<Longrightarrow>
   builder_ok Q (fst (snd (replay_buffered evs st applied)))"
proof (induction evs st applied rule: replay_buffered.induct)
  case (1 st applied)
  then show ?case by simp
next
  case (2 now ev evs st applied)
  have ok: "builder_ok Q ((apply_event now ev st)\<lparr>book_update_id := ev_u ev\<rparr>)"
    using "2.prems" by (intro builder_ok_apply) (auto simp: events_ok_def)
  have rest: "events_ok Q evs" using "2.prems" by (simp add: events_ok_def)
  show ?case using 2 ok rest by auto
qed

lemma builder_ok_await:
  "builder_ok Q st \<Longrightarrow> events_ok Q evs \<Longrightarrow>
   builder_ok Q (fst (snd (await_first evs st))) \<and> events_ok Q (snd (snd (await_first evs st)))"
proof (induction evs st rule: await_first.induct)
  case (1 st)
  then show ?case by (simp add: events_ok_def)
next
  case (2 now ev evs st)
  have ok: "builder_ok Q ((apply_event now ev st)\<lparr>book_update_id := ev_u ev\<rparr>)"
    using "2.prems" by (intro builder_ok_apply) (auto simp: events_ok_def)
  have rest: "events_ok Q evs" using "2.prems" by (simp add: events_ok_def)
  show ?case using 2 ok rest by auto
qed

lemma strict_sort_key:
  assumes "distinct (map fst (d :: levels))"
  shows "sorted_wrt (<) (map fst (sort_key fst d))"
proof -
  have "mset (map fst (sort_key fst d)) = mset (map fst d)" by simp
  then have "distinct (map fst (sort_key fst d))"
    using assms mset_eq_imp_distinct_iff by blast
  moreover have "sorted (map fst (sort_key fst d))" by (rule sorted_sort_key)
  ultimately show ?thesis by (simp add: strict_sorted_iff)
qed

lemma sorted_asc_strict:
  "book_ok Q d \<Longrightarrow> sorted_wrt (<) (map fst (sorted_asc d))"
  by (simp add: sorted_asc_def book_ok_def strict_sort_key)

lemma sorted_desc_strict:
  assumes "book_ok Q d"
  shows "sorted_wrt (>) (map fst (sorted_desc d))"
proof -
  have "distinct (map fst (rev d))" using assms by (simp add: book_ok_def rev_map [symmetric])
  then have "sorted_wrt (<) (map fst (sort_key fst (rev d)))" by (rule strict_sort_key)
  then show ?thesis by (simp add: sorted_desc_def rev_map [symmetric] sorted_wrt_rev)
qed

lemma slice_to_take: "\<exists>n. slice_to k xs = take n xs"
  by (auto simp: slice_to_def)

lemma emitted_lists:
  assumes "emit_state now ts st = Some bs"
  shows "\<exists>m n. bids bs = take m (sorted_desc (l2_bids st)) \<and> asks bs = take n (sorted_asc (l2_asks st))"
proof (cases "l2_emit_full st")
  case True
  have "bids bs = take (length (sorted_desc (l2_bids st))) (sorted_desc (l2_bids st)) \<and>
        asks bs = take (length (sorted_asc (l2_asks st))) (sorted_asc (l2_asks st))"
    using assms True by (auto simp: emit_state_def split: list.splits prod.splits)
  then show ?thesis by blast
next
  case False
  obtain m where m: "slice_to (l2_top_n st) (sorted_desc (l2_bids st)) = take m (sorted_desc (l2_bids st))"
    using slice_to_take by blast
  obtain n where n: "slice_to (l2_top_n st) (sorted_asc (l2_asks st)) = take n (sorted_asc (l2_asks st))"
    using slice_to_take by blast
  have "bids bs = take m (sorted_desc (l2_bids st)) \<and> asks bs = take n (sorted_asc (l2_asks st))"
    using assms False m n by (auto simp: emit_state_def top_levels_def split: list.splits prod.splits)
  then show ?thesis by blast
qed

lemma emitted_heads:
  assumes "emit_state now ts st = Some bs"
  shows "(\<exists>q rest. bids bs = (best_bid bs, q) # rest) \<and> (\<exists>q rest. asks bs = (best_ask bs, q) # rest)"
  using assms by (auto simp: emit_state_def split: list.splits prod.splits)

lemma emit_state_ok:
  assumes e: "emit_state now ts st = Some bs" and ok: "builder_ok Q st"
  shows "state_ok Q bs"
proof -
  obtain m n where mn: "bids bs = take m (sorted_desc (l2_bids st))"
      "asks bs = take n (sorted_asc (l2_asks st))"
    using emitted_lists [OF e] by blast
  have b: "book_ok Q (l2_bids st)" and a: "book_ok Q (l2_asks st)"
    using ok by (simp_all add: builder_ok_def)
  have sb: "sorted_wrt (>) (map fst (bids bs))"
    using sorted_desc_strict [OF b] by (simp add: mn take_map [symmetric])
  have sa: "sorted_wrt (<) (map fst (asks bs))"
    using sorted_asc_strict [OF a] by (simp add: mn take_map [symmetric])
  have "set (bids bs) \<subseteq> set (l2_bids st)"
    using set_take_subset [of m "sorted_desc (l2_bids st)"] by (simp add: mn sorted_desc_def)
  moreover have "set (asks bs) \<subseteq> set (l2_asks st)"
    using set_take_subset [of n "sorted_asc (l2_asks st)"] by (simp add: mn sorted_asc_def)
  ultimately have q: "\<forall>x\<in>set (bids bs @ asks bs). Q (snd x)"
    using a b by (auto simp: book_ok_def)
  show ?thesis unfolding state_ok_def using emitted_heads [OF e] sb sa q by blast
qed

lemma live_loop_ok:
  "builder_ok Q st \<Longrightarrow> events_ok Q evs \<Longrightarrow> \<forall>bs\<in>set out. state_ok Q bs \<Longrightarrow>
   \<forall>bs\<in>set (snd (snd (live_loop evs st out))). state_ok Q bs"
proof (induction evs st out rule: live_loop.induct)
  case (1 st out)
  then show ?case by simp
next
  case (2 now ev evs st out)
  let ?st = "(apply_event now ev st)\<lparr>book_update_id := ev_u ev\<rparr>"
  have ok: "builder_ok Q ?st"
    using "2.prems" by (intro builder_ok_apply) (auto simp: events_ok_def)
  have rest: "events_ok Q evs" using "2.prems" by (simp add: events_ok_def)
  have out: "\<forall>bs\<in>set (case emit_state now (ev_E ev) ?st of None \<Rightarrow> out | Some bs \<Rightarrow> out @ [bs]). state_ok Q bs"
    using "2.prems"(3) emit_state_ok [OF _ ok] by (auto split: option.splits)
  show ?case
  proof (cases "ev_u ev \<le> book_update_id st")
    case True
    then show ?thesis using "2.IH"(1) "2.prems" rest by simp
  next
    case skip: False
    show ?thesis
    proof (cases "ev_U ev > book_update_id st + 1")
      case True
      then show ?thesis using skip "2.prems" by simp
    next
      case False
      from "2.IH"(2) [OF skip False refl ok rest out] show ?thesis
        using skip False by (simp add: Let_def)
    qed
  qed
qed

lemma run_once_ok:
  assumes Q: "\<And>q. 0 < q \<Longrightarrow> Q q"
    and b: "events_ok Q (ep_buffered ep)" and l: "events_ok Q (ep_live ep)"
  shows "\<forall>bs\<in>set (snd (snd (run_once ep st0))). state_ok Q bs"
proof (cases "ep_buffered ep")
  case Nil
  then show ?thesis by (simp add: run_once_def)
next
  case (Cons te tes)
  obtain t0 first where te: "te = (t0, first)" by (cases te)
  show ?thesis
  proof (cases "fetch_fresh (ev_U first) (ep_fetches ep)")
    case (Fetched snap)
    let ?s1 = "sync_snapshot snap (clear_book st0)"
    obtain e st2 applied where r: "replay_buffered (ep_buffered ep) ?s1 False = (e, st2, applied)"
      by (cases "replay_buffered (ep_buffered ep) ?s1 False") auto
    have ok2: "builder_ok Q st2"
      using builder_ok_replay [OF builder_ok_sync [of Q snap "clear_book st0"] b, of False] Q r by simp
    show ?thesis
    proof (cases e)
      case (Some err)
      then show ?thesis using Cons te Fetched r by (simp add: run_once_def)
    next
      case None
      show ?thesis
      proof (cases applied)
        case True
        then show ?thesis
          using Cons te Fetched r None live_loop_ok [OF ok2 l, of "[]"] by (simp add: run_once_def)
      next
        case False
        obtain w st3 rest where a: "await_first (ep_live ep) st2 = (w, st3, rest)"
          by (cases "await_first (ep_live ep) st2") auto
        have ok3: "builder_ok Q st3" and okr: "events_ok Q rest"
          using builder_ok_await [OF ok2 l] a by simp_all
        show ?thesis
          using Cons te Fetched r None False a live_loop_ok [OF ok3 okr, of "[]"]
          by (cases w) (simp_all add: run_once_def)
      qed
    qed
  qed (simp_all add: run_once_def Cons te)
qed

lemma start_ok:
  assumes Q: "\<And>q. 0 < q \<Longrightarrow> Q q"
  shows "\<forall>ep\<in>set eps. events_ok Q (ep_buffered ep) \<and> events_ok Q (ep_live ep) \<Longrightarrow>
    \<forall>bs\<in>set (snd (start eps st)). state_ok Q bs"
proof (induction eps arbitrary: st)
  case Nil
  then show ?case by simp
next
  case (Cons ep eps)
  obtain r st' out where r: "run_once ep st = (r, st', out)"
    by (cases "run_once ep st") auto
  have o: "\<forall>bs\<in>set out. state_ok Q bs"
    using run_once_ok [of Q ep st] Q Cons.prems r by simp
  have ih: "\<And>s. \<forall>bs\<in>set (snd (start eps s)). state_ok Q bs"
    using Cons.IH Cons.prems by simp
  show ?case
  proof (cases r)
    case (Raised e)
    then show ?thesis
      using r o ih [of "st'\<lparr>l2_resync_count := l2_resync_count st' + 1\<rparr>"]
      by (auto split: prod.splits)
  next
    case Returned
    then show ?thesis using r o ih [of st'] by (auto split: prod.splits)
  next
    case Awaiting
    then show ?thesis using r o by simp
  qed
qed

text \<open>
  Claim C4, as the builder has it. Every \<open>BookState\<close> the L2 builder publishes, over
  any sequence of epochs (snapshot load, replay, live deltas), has both sides non-empty,
  \<open>best_bid\<close> and \<open>best_ask\<close> are the prices of the first bid and the first ask,
  the bids are strictly descending and the asks strictly ascending in price, and no
  level has quantity 0; when no delta entry carries a negative quantity, every level's
  quantity is strictly positive. The builder does not compare the two sides, so
  \<open>best_bid < best_ask\<close> is not among the guarantees.
\<close>

theorem published_states_sorted_nonzero:
  assumes "bs \<in> set (snd (start eps st))"
  shows "(\<exists>q rest. bids bs = (best_bid bs, q) # rest) \<and>
         (\<exists>q rest. asks bs = (best_ask bs, q) # rest) \<and>
         sorted_wrt (>) (map fst (bids bs)) \<and>
         sorted_wrt (<) (map fst (asks bs)) \<and>
         (\<forall>x\<in>set (bids bs @ asks bs). snd x \<noteq> 0) \<and>
         (nonneg_deltas eps \<longrightarrow> (\<forall>x\<in>set (bids bs @ asks bs). 0 < snd x))"
proof -
  have nz: "state_ok (\<lambda>q. q \<noteq> 0) bs"
    using start_ok [of "\<lambda>q. q \<noteq> 0" eps st] assms
    by (auto simp: events_ok_def entries_ok_def)
  have pos: "state_ok (\<lambda>q. 0 < q) bs" if "nonneg_deltas eps"
  proof -
    have "\<forall>ep\<in>set eps. events_ok (\<lambda>q. 0 < q) (ep_buffered ep) \<and>
        events_ok (\<lambda>q. 0 < q) (ep_live ep)"
      using that unfolding nonneg_deltas_def events_ok_def entries_ok_def
      by (auto simp: less_le)
    then show ?thesis
      using start_ok [of "\<lambda>q. 0 < q" eps st] assms by blast
  qed
  show ?thesis using nz pos unfolding state_ok_def by blast
qed

text \<open>An epoch with non-negative deltas: the one state it publishes.\<close>

theorem published_states_sorted_nonzero_witness:
  "emitted_ok \<in> set (snd (start [epoch_ok] builder0)) \<and>
   nonneg_deltas [epoch_ok] \<and>
   best_bid emitted_ok = fst (hd (bids emitted_ok)) \<and>
   best_ask emitted_ok = fst (hd (asks emitted_ok)) \<and>
   sorted_wrt (>) (map fst (bids emitted_ok)) \<and>
   sorted_wrt (<) (map fst (asks emitted_ok)) \<and>
   list_all (\<lambda>x. 0 < snd x) (bids emitted_ok @ asks emitted_ok)"
proof -
  have mem: "emitted_ok \<in> set (snd (start [epoch_ok] builder0))"
    by (simp add: l2_eval)
  have nn: "nonneg_deltas [epoch_ok]"
    by (simp add: nonneg_deltas_def epoch_ok_def delta_def)
  show ?thesis
    using published_states_sorted_nonzero [OF mem] mem nn
    by (auto simp: list_all_iff)
qed

text \<open>The claim as stated fails: after the snapshot of scenario A, a delta that bids 11
  above the resting ask 10.5 and sets an ask quantity of -1 is applied and published.
  The one published state has \<open>best_bid = 11 > best_ask = 10.5\<close> and an ask level
  of negative quantity.\<close>

theorem crossed_book_counterexample:
  "map best_bid (snd (start [epoch_crossed] builder0)) = [11] \<and>
   map best_ask (snd (start [epoch_crossed] builder0)) = [21 / 2] \<and>
   map bids (snd (start [epoch_crossed] builder0)) = [[(11, 1), (10, 1), (9, 2)]] \<and>
   map asks (snd (start [epoch_crossed] builder0)) = [[(21 / 2, 1), (11, 3), (12, - 1)]] \<and>
   \<not> (11 :: rat) < 21 / 2"
  by (simp add: l2_eval)

section \<open>The order-stream builder: messages and the order map\<close>

lemmas l3_eval =
  order_a_def book_two_def match_msg_def epoch_no_snapshot_def apply_message_def
  remove_order_def add_order_def get_levels_def set_levels_def level_get_def
  referenced_id_def l3_run_once_def emit_state_l2_def slice_to_def

text \<open>
  Claim C10. A match, done or change message whose referenced order id
  (\<open>maker_order_id\<close> for a match, \<open>order_id\<close> otherwise) is missing from the
  message or absent from the live-order map changes nothing: \<open>_apply_message\<close> returns
  the builder as it was (order map and both level maps) and raises no error.
\<close>

theorem absent_order_is_noop:
  assumes ty: "m_type msg = ''match'' \<or> m_type msg = ''done'' \<or> m_type msg = ''change''"
    and absent: "\<forall>order_id. referenced_id msg = Some order_id \<longrightarrow> map_of (orders st) order_id = None"
  shows "apply_message msg st = Inr st"
proof -
  consider (m) "m_type msg = ''match''" | (d) "m_type msg = ''done''" | (c) "m_type msg = ''change''"
    using ty by blast
  then show ?thesis
  proof cases
    case m
    then show ?thesis using absent
      by (auto simp: apply_message_def referenced_id_def split: option.splits)
  next
    case d
    then show ?thesis using absent
      by (auto simp: apply_message_def referenced_id_def remove_order_def split: option.splits)
  next
    case c
    then show ?thesis using absent
      by (auto simp: apply_message_def referenced_id_def split: option.splits)
  qed
qed

text \<open>A match whose maker order is not in the book.\<close>

theorem absent_order_is_noop_witness:
  "referenced_id (match_msg ''zz'' 1) = Some ''zz'' \<and>
   map_of (orders book_two) ''zz'' = None \<and>
   apply_message (match_msg ''zz'' 1) book_two = Inr book_two"
proof -
  have ty: "m_type (match_msg ''zz'' 1) = ''match'' \<or> m_type (match_msg ''zz'' 1) = ''done'' \<or>
      m_type (match_msg ''zz'' 1) = ''change''"
    by (simp add: match_msg_def)
  have ab: "\<forall>order_id. referenced_id (match_msg ''zz'' 1) = Some order_id \<longrightarrow>
      map_of (orders book_two) order_id = None"
    by (simp add: l3_eval)
  show ?thesis
    using absent_order_is_noop [OF ty ab] by (simp add: l3_eval)
qed







lemma get_levels_orders [simp]: "get_levels (st\<lparr>orders := os\<rparr>) side = get_levels st side"
  by (simp add: get_levels_def)

lemma orders_set_levels [simp]: "orders (set_levels side lv st) = orders st"
  by (simp add: set_levels_def)












section \<open>The order-stream builder: the failed snapshot fetch\<close>




section \<open>The storage sink\<close>

lemmas sink_eval =
  state_at_def book_event_def bad_event_def sink0_def handle_book_def write_row_def
  bucket_start_ms_def book_row_def flush_def drop_duplicates_def sort_values_def row_key_def
  batch_1_def batch_2_def sink_after_one_def

text \<open>What \<open>drop_duplicates\<close> and \<open>sort_values\<close> leave: one row per key, the
  first of the input with that key, in ascending order of the timestamp.\<close>

lemma drop_seen_subset: "set (drop_seen seen rs) \<subseteq> set rs"
  by (induction seen rs rule: drop_seen.induct) auto

lemma drop_seen_keys:
  "row_key ` set (drop_seen seen rs) = row_key ` set rs - set seen"
  by (induction seen rs rule: drop_seen.induct) auto

lemma drop_seen_distinct: "distinct (map row_key (drop_seen seen rs))"
  by (induction seen rs rule: drop_seen.induct) (auto simp: drop_seen_keys)

lemma drop_seen_first:
  "r \<in> set (drop_seen seen rs) \<Longrightarrow> find (\<lambda>x. row_key x = row_key r) rs = Some r"
proof (induction seen rs rule: drop_seen.induct)
  case (1 seen)
  then show ?case by simp
next
  case (2 seen x xs)
  show ?case
  proof (cases "row_key x \<in> set seen")
    case True
    then have r: "r \<in> set (drop_seen seen xs)" using "2.prems" by simp
    then have "row_key r \<in> row_key ` set xs - set seen"
      using drop_seen_keys [of seen xs] by blast
    then have "row_key x \<noteq> row_key r" using True by auto
    then show ?thesis using "2.IH"(1) [OF True r] by simp
  next
    case False
    show ?thesis
    proof (cases "r = x")
      case True
      then show ?thesis by simp
    next
      case ne: False
      then have r: "r \<in> set (drop_seen (row_key x # seen) xs)" using "2.prems" False by simp
      then have "row_key r \<in> row_key ` set xs - set (row_key x # seen)"
        using drop_seen_keys [of "row_key x # seen" xs] by blast
      then have "row_key x \<noteq> row_key r" by auto
      then show ?thesis using "2.IH"(2) [OF False r] by simp
    qed
  qed
qed

lemma merged_page:
  fixes rs :: "row list"
  defines "page \<equiv> sort_values (drop_duplicates rs)"
  shows "sorted (map row_ts_ms page)"
    and "distinct (map row_key page)"
    and "set page \<subseteq> set rs"
    and "row_key ` set page = row_key ` set rs"
    and "\<forall>r\<in>set page. find (\<lambda>x. row_key x = row_key r) rs = Some r"
    and "mset page = mset (drop_duplicates rs)"
proof -
  show "sorted (map row_ts_ms page)"
    by (simp add: page_def sort_values_def)
  have "mset (map row_key page) = mset (map row_key (drop_duplicates rs))"
    by (simp add: page_def sort_values_def)
  then show "distinct (map row_key page)"
    using drop_seen_distinct [of "[]" rs] mset_eq_imp_distinct_iff
    unfolding drop_duplicates_def by blast
  have s: "set page = set (drop_seen [] rs)"
    by (simp add: page_def sort_values_def drop_duplicates_def)
  show "set page \<subseteq> set rs" using s drop_seen_subset by blast
  show "row_key ` set page = row_key ` set rs" using s drop_seen_keys [of "[]" rs] by simp
  show "\<forall>r\<in>set page. find (\<lambda>x. row_key x = row_key r) rs = Some r"
    using s drop_seen_first [of _ "[]" rs] by blast
  show "mset page = mset (drop_duplicates rs)" by (simp add: page_def sort_values_def)
qed

lemma write_row_same_bucket:
  assumes "bucket_start_ms (row_ts_ms r) (window_sec w) = Inr k"
    and "bucket_ms w = None \<or> bucket_ms w = Some k"
  shows "write_row r (w, fs) = Inr (w\<lparr>bucket_ms := Some k, rows := rows w @ [r]\<rparr>, fs)"
  using assms by (auto simp: write_row_def Let_def)

lemma write_all_same_bucket:
  "\<forall>r\<in>set b. bucket_start_ms (row_ts_ms r) (window_sec w) = Inr k \<Longrightarrow>
   bucket_ms w = None \<or> bucket_ms w = Some k \<Longrightarrow> b \<noteq> [] \<Longrightarrow>
   write_all b (w, fs) = Inr (w\<lparr>bucket_ms := Some k, rows := rows w @ b\<rparr>, fs)"
proof (induction b arbitrary: w)
  case Nil
  then show ?case by simp
next
  case (Cons r b)
  let ?w = "w\<lparr>bucket_ms := Some k, rows := rows w @ [r]\<rparr>"
  have wr: "write_row r (w, fs) = Inr (?w, fs)"
    using Cons.prems by (intro write_row_same_bucket) auto
  show ?case
  proof (cases "b = []")
    case True
    then show ?thesis using wr by simp
  next
    case False
    have "write_all b (?w, fs) = Inr (?w\<lparr>bucket_ms := Some k, rows := rows ?w @ b\<rparr>, fs)"
      using Cons.prems False by (intro Cons.IH) auto
    then show ?thesis using wr by simp
  qed
qed

text \<open>
  Claim C5. A fresh writer takes the rows of a first batch, is flushed, takes the rows of
  a second batch and is flushed again; both batches are non-empty, all their rows fall
  into the same bucket \<open>k\<close>, and no page exists for that bucket before the first
  flush. The first flush writes the first batch as the bucket's page; the second flush
  finds it and rewrites the page. Read back, the page is sorted ascending by \<open>ts_ms\<close>,
  holds one row per \<open>(ts_ms, venue)\<close> key, each key of the two batches is present, and
  each row is the first row of the concatenated batches with its key.
\<close>

theorem two_flushes_merge_bucket_page:
  assumes fresh: "rows w = []" "bucket_ms w = None"
    and same: "\<forall>r\<in>set (b1 @ b2). bucket_start_ms (row_ts_ms r) (window_sec w) = Inr k"
    and ne: "b1 \<noteq> []" "b2 \<noteq> []"
    and nofile: "fs k = None"
  shows "\<exists>w1 w2 page.
           write_all b1 (w, fs) = Inr (w1, fs) \<and>
           flush (w1, fs) = (w1\<lparr>rows := []\<rparr>, fs(k := Some (Page b1))) \<and>
           write_all b2 (w1\<lparr>rows := []\<rparr>, fs(k := Some (Page b1))) = Inr (w2, fs(k := Some (Page b1))) \<and>
           flush (w2, fs(k := Some (Page b1))) = (w2\<lparr>rows := []\<rparr>, fs(k := Some (Page page))) \<and>
           page = sort_values (drop_duplicates (b1 @ b2)) \<and>
           sorted (map row_ts_ms page) \<and>
           distinct (map row_key page) \<and>
           set page \<subseteq> set (b1 @ b2) \<and>
           row_key ` set page = row_key ` set (b1 @ b2) \<and>
           (\<forall>r\<in>set page. find (\<lambda>x. row_key x = row_key r) (b1 @ b2) = Some r)"
proof -
  let ?w1 = "w\<lparr>bucket_ms := Some k, rows := rows w @ b1\<rparr>"
  let ?fs1 = "fs(k := Some (Page b1))"
  let ?w1' = "?w1\<lparr>rows := []\<rparr>"
  let ?w2 = "?w1'\<lparr>bucket_ms := Some k, rows := rows ?w1' @ b2\<rparr>"
  let ?page = "sort_values (drop_duplicates (b1 @ b2))"
  have a: "write_all b1 (w, fs) = Inr (?w1, fs)"
    using same fresh ne by (intro write_all_same_bucket) auto
  have b: "flush (?w1, fs) = (?w1', ?fs1)"
    using fresh ne nofile by (simp add: flush_def)
  have c: "write_all b2 (?w1', ?fs1) = Inr (?w2, ?fs1)"
    using same ne by (intro write_all_same_bucket) auto
  have d: "flush (?w2, ?fs1) = (?w2\<lparr>rows := []\<rparr>, fs(k := Some (Page ?page)))"
    using ne by (simp add: flush_def)
  show ?thesis
    using a b c d merged_page [of "b1 @ b2"] by blast
qed

text \<open>Two batches in bucket 0 of a 300-second window; the second repeats the key
  \<open>(1000, coinbase)\<close> of the first.\<close>

theorem two_flushes_merge_bucket_page_witness:
  "(case write_all batch_1 (sink_writer (sink0 300), sink_files (sink0 300)) of
      Inl e \<Rightarrow> False
    | Inr ws1 \<Rightarrow>
        (case write_all batch_2 (flush ws1) of
           Inl e \<Rightarrow> False
         | Inr ws2 \<Rightarrow>
             snd (flush ws2) 0 =
               Some (Page [book_row (state_at ''coinbase'' 1000 10),
                           book_row (state_at ''binance'' 1500 10),
                           book_row (state_at ''binance'' 2000 10)])))"
proof -
  let ?w = "sink_writer (sink0 300)" and ?fs = "sink_files (sink0 300)"
  have fresh: "rows ?w = []" "bucket_ms ?w = None" by (simp_all add: sink0_def)
  have same: "\<forall>r\<in>set (batch_1 @ batch_2). bucket_start_ms (row_ts_ms r) (window_sec ?w) = Inr 0"
    by (simp add: sink_eval)
  have ne: "batch_1 \<noteq> []" "batch_2 \<noteq> []" by (simp_all add: batch_1_def batch_2_def)
  have nofile: "?fs 0 = None" by (simp add: sink0_def)
  from two_flushes_merge_bucket_page [of ?w batch_1 batch_2 0 ?fs, OF fresh same ne nofile]
  obtain w1 w2 page where
    a: "write_all batch_1 (?w, ?fs) = Inr (w1, ?fs)"
    and b: "flush (w1, ?fs) = (w1\<lparr>rows := []\<rparr>, ?fs(0 := Some (Page batch_1)))"
    and c: "write_all batch_2 (w1\<lparr>rows := []\<rparr>, ?fs(0 := Some (Page batch_1)))
        = Inr (w2, ?fs(0 := Some (Page batch_1)))"
    and d: "flush (w2, ?fs(0 := Some (Page batch_1)))
        = (w2\<lparr>rows := []\<rparr>, ?fs(0 := Some (Page page)))"
    and p: "page = sort_values (drop_duplicates (batch_1 @ batch_2))"
    by blast
  have "page = [book_row (state_at ''coinbase'' 1000 10),
                book_row (state_at ''binance'' 1500 10),
                book_row (state_at ''binance'' 2000 10)]"
    unfolding p by (simp add: sink_eval)
  then show ?thesis using a b c d by simp
qed

section \<open>The storage sink: an error in \<open>handle_book\<close>\<close>

lemma sink_run_append:
  "sink_run (pre @ post) s =
     (case sink_run pre s of (None, s') \<Rightarrow> sink_run post s' | (Some e, s') \<Rightarrow> (Some e, s'))"
proof (induction pre s rule: sink_run.induct)
  case (1 s)
  then show ?case by simp
next
  case (2 now ev evs s)
  then show ?case
    by (auto simp: Let_def split: sum.splits prod.splits)
qed

lemma handle_book_fails:
  "handle_book p (w, fs) = Inl e \<longleftrightarrow>
     (p = Other \<and> e = AttributeError) \<or>
     ((\<exists>book. p = Book book) \<and> window_sec w = 0 \<and> e = ZeroDivisionError)"
  by (cases p) (auto simp: handle_book_def write_row_def bucket_start_ms_def Let_def split: prod.splits)

text \<open>
  Claim C8, as the sink has it. When \<open>handle_book\<close> raises on a \<open>book_state\<close>
  event (its payload is no \<open>BookState\<close>, or the bucket width is zero), \<open>run\<close> does
  not catch the error: the consume loop ends at that event with the error. The sink is
  left as the events before it made it (the event is not counted, nothing is flushed,
  the rows buffered so far stay in the buffer), and the events after it are not
  consumed.
\<close>

theorem handle_book_error_ends_run:
  assumes pre: "sink_run pre s0 = (None, s)"
    and ty: "event_type ev = ''book_state''"
    and fails: "handle_book (event_payload ev) (sink_writer s, sink_files s) = Inl e"
  shows "sink_run (pre @ (now, ev) # rest) s0 = (Some e, s)"
  using assms by (simp add: sink_run_append)

text \<open>A good event, then an event without a \<open>BookState\<close>, then another good
  event.\<close>

theorem handle_book_error_ends_run_witness:
  "sink_run [(1, book_event (state_at ''coinbase'' 1000 10))] (sink0 300)
     = (None, sink_after_one) \<and>
   event_type bad_event = ''book_state'' \<and>
   handle_book (event_payload bad_event) (sink_writer sink_after_one, sink_files sink_after_one)
     = Inl AttributeError \<and>
   sink_run ([(1, book_event (state_at ''coinbase'' 1000 10))] @ (2, bad_event) #
             [(3, book_event (state_at ''coinbase'' 3000 10))]) (sink0 300)
     = (Some AttributeError, sink_after_one)"
proof -
  have pre: "sink_run [(1, book_event (state_at ''coinbase'' 1000 10))] (sink0 300)
      = (None, sink_after_one)"
    by (simp add: sink_eval)
  have ty: "event_type bad_event = ''book_state''" by (simp add: bad_event_def)
  have fails: "handle_book (event_payload bad_event)
      (sink_writer sink_after_one, sink_files sink_after_one) = Inl AttributeError"
    by (simp add: bad_event_def handle_book_def)
  show ?thesis
    using handle_book_error_ends_run [OF pre ty fails, of 2
        "[(3, book_event (state_at ''coinbase'' 3000 10))]"] pre ty fails
    by simp
qed

text \<open>The claim as stated fails: an event without a \<open>BookState\<close> between two good
  events ends \<open>run\<close> with the error, the third event unhandled (one row buffered, one
  event counted); and with a bucket width of zero the first event already ends it.\<close>

theorem sink_error_not_caught_counterexample:
  "sink_run [(1, book_event (state_at ''binance'' 1000 10)), (2, bad_event),
             (3, book_event (state_at ''binance'' 3000 10))] (sink0 300)
     = (Some AttributeError,
        (sink0 300)\<lparr>sink_writer :=
           \<lparr>window_sec = 300, bucket_ms = Some 0, rows = [book_row (state_at ''binance'' 1000 10)]\<rparr>,
           book_count := 1\<rparr>) \<and>
   sink_run [(1, book_event (state_at ''binance'' 1000 10)),
             (3, book_event (state_at ''binance'' 3000 10))] (sink0 0)
     = (Some ZeroDivisionError, sink0 0)"
  by (simp add: sink_eval)

end
